theory Spec2Isabelle
  imports Complex_Main
begin

section \<open>Dashboard settings reducer\<close>

text \<open>
  The reducer module \<^verbatim>\<open>dashboard/app/reducer/settings.js\<close> is imported by its unit test
  \<^verbatim>\<open>dashboard/app/reducer/test/settings.js\<close>, which is where its data is taken from: a state object \<^verbatim>\<open>{error, googleAnalyticsId}\<close>, actions
  \<^verbatim>\<open>{type, payload}\<close>, the four members of \<^verbatim>\<open>ACTION_TYPES\<close>, and a mocked \<^verbatim>\<open>Date.now()\<close>.
\<close>

text \<open>The members of \<^verbatim>\<open>ACTION_TYPES\<close> the test names; any other value of \<^verbatim>\<open>action.type\<close>
  is \<open>UNRECOGNIZED\<close>.\<close>

datatype action_type =
    FETCH_SETTINGS_SUCCESS
  | FETCH_SETTINGS_FAILURE
  | UPDATE_SETTINGS_SUCCESS
  | UPDATE_SETTINGS_FAILURE
  | UNRECOGNIZED string

text \<open>A JavaScript value held by \<^verbatim>\<open>googleAnalyticsId\<close>: \<^verbatim>\<open>null\<close> in the initial state,
  a string in the payloads, \<^verbatim>\<open>undefined\<close> when the payload lacks the property.\<close>

datatype jsval = JSNull | JSUndefined | JSString string

text \<open>The \<^verbatim>\<open>message\<close> object of a failure payload.\<close>

record message =
  body :: string
  title :: string

text \<open>The payload of an action. A property the object lacks reads as \<^verbatim>\<open>undefined\<close>:
  \<open>None\<close> for \<^verbatim>\<open>message\<close> and \<^verbatim>\<open>code\<close>, \<open>JSUndefined\<close> for \<^verbatim>\<open>googleAnalyticsId\<close>.\<close>

record payload =
  p_googleAnalyticsId :: jsval
  p_message :: "message option"
  p_code :: "string option"

record action =
  atype :: action_type
  payload :: payload

text \<open>The \<^verbatim>\<open>error\<close> object of the state; \<^verbatim>\<open>{}\<close> has no property set.\<close>

record error_obj =
  e_message :: "message option"
  e_id :: "int option"
  e_code :: "string option"

definition empty_error :: error_obj where
  "empty_error = \<lparr>e_message = None, e_id = None, e_code = None\<rparr>"

text \<open>The state. The record is extensible, so a state with further fields is a
  \<open>'z settings_state_scheme\<close> and a record update leaves those fields alone, as the
  spread \<^verbatim>\<open>{...state, ...}\<close> does.\<close>

record settings_state =
  error :: error_obj
  googleAnalyticsId :: jsval

definition initialState :: settings_state where
  "initialState = \<lparr>error = empty_error, googleAnalyticsId = JSNull\<rparr>"

text \<open>
  Modelled from the spec: the function \<^verbatim>\<open>settingsReducer\<close> of
  \<^verbatim>\<open>dashboard/app/reducer/settings.js\<close> is missing from the sources. The spec describes it
  as a pure function \<^verbatim>\<open>(state, action) -> newState\<close>; the recognized types are
  fetch-success, fetch-failure, update-success and update-failure; a failure payload
  \<^verbatim>\<open>{message, code}\<close> is normalized into \<^verbatim>\<open>{id: timestamp, message, code}\<close> in the
  resulting error state; a success action replaces the state field of its payload and
  does not reset the error; an unrecognized type returns the state unchanged.
  The first argument is the value of \<^verbatim>\<open>Date.now()\<close> at the call.
\<close>

definition settingsReducer ::
  "int \<Rightarrow> 'z settings_state_scheme \<Rightarrow> action \<Rightarrow> 'z settings_state_scheme" where
  "settingsReducer now state act =
     (case atype act of
        UPDATE_SETTINGS_FAILURE \<Rightarrow>
          state\<lparr>error := \<lparr>e_message = p_message (payload act), e_id = Some now,
                           e_code = p_code (payload act)\<rparr>\<rparr>
      | FETCH_SETTINGS_FAILURE \<Rightarrow>
          state\<lparr>error := \<lparr>e_message = p_message (payload act), e_id = Some now,
                           e_code = p_code (payload act)\<rparr>\<rparr>
      | UPDATE_SETTINGS_SUCCESS \<Rightarrow>
          state\<lparr>googleAnalyticsId := p_googleAnalyticsId (payload act)\<rparr>
      | FETCH_SETTINGS_SUCCESS \<Rightarrow>
          state\<lparr>googleAnalyticsId := p_googleAnalyticsId (payload act)\<rparr>
      | UNRECOGNIZED t \<Rightarrow> state)"

text \<open>The two payload shapes the test builds.\<close>

definition failure_payload :: "message \<Rightarrow> string \<Rightarrow> payload" where
  "failure_payload m c =
     \<lparr>p_googleAnalyticsId = JSUndefined, p_message = Some m, p_code = Some c\<rparr>"

definition settings_payload :: "jsval \<Rightarrow> payload" where
  "settings_payload v = \<lparr>p_googleAnalyticsId = v, p_message = None, p_code = None\<rparr>"

definition is_failure :: "action_type \<Rightarrow> bool" where
  "is_failure t = (t = FETCH_SETTINGS_FAILURE \<or> t = UPDATE_SETTINGS_FAILURE)"

definition is_success :: "action_type \<Rightarrow> bool" where
  "is_success t = (t = FETCH_SETTINGS_SUCCESS \<or> t = UPDATE_SETTINGS_SUCCESS)"

definition is_recognized :: "action_type \<Rightarrow> bool" where
  "is_recognized t = (is_success t \<or> is_failure t)"

text \<open>\<^verbatim>\<open>expect(result).toMatchObject(expected)\<close> for the objects of the test: every
  property of the expected object is matched, an expected \<^verbatim>\<open>error: {}\<close> matches any
  error object.\<close>

definition error_matches :: "error_obj \<Rightarrow> error_obj \<Rightarrow> bool" where
  "error_matches result expected =
     ((e_message expected = None \<or> e_message result = e_message expected) \<and>
      (e_id expected = None \<or> e_id result = e_id expected) \<and>
      (e_code expected = None \<or> e_code result = e_code expected))"

definition toMatchObject :: "settings_state \<Rightarrow> settings_state \<Rightarrow> bool" where
  "toMatchObject result expected =
     (error_matches (error result) (error expected) \<and>
      googleAnalyticsId result = googleAnalyticsId expected)"

text \<open>The value the test's \<^verbatim>\<open>Date.now\<close> spy returns.\<close>

definition mocked_now :: int where
  "mocked_now = 1592844570916"


section \<open>The editor's karma fixture\<close>

text \<open>
  \<^verbatim>\<open>edit-story/karma/fixture.js\<close>. A \<^verbatim>\<open>Fixture\<close> replaces \<^verbatim>\<open>React.createElement\<close> with a
  spy that substitutes the wrapper of a registered \<^verbatim>\<open>ComponentStub\<close> for the component
  being instantiated. React itself is the environment: it calls the wrapper to render
  it, and it is React that decides when a render pass happens.
\<close>

subsection \<open>Components, props and elements\<close>

text \<open>The first argument of \<^verbatim>\<open>createElement\<close>: the components the fixture names, any other
  component or host tag by name, and the \<^verbatim>\<open>Wrapper\<close> a stub creates in its constructor.
  The wrapper of the \<open>k\<close>-th stub registered for component \<open>c\<close> is \<open>Wrapper c k\<close>: every
  stub has a wrapper of its own.\<close>

datatype component =
    App
  | APIProvider
  | WorkspaceLayout
  | Named string
  | Wrapper component nat

text \<open>A props object: whether \<^verbatim>\<open>_wrapped\<close> is truthy, and the other properties.\<close>

record props =
  wrapped :: bool
  attrs :: "(string \<times> string) list"

text \<open>The second argument of \<^verbatim>\<open>createElement\<close> may be \<^verbatim>\<open>null\<close>, which is \<open>None\<close>.
  \<^verbatim>\<open>props?._wrapped\<close> is then \<^verbatim>\<open>undefined\<close>, which is falsy.\<close>

definition props_wrapped :: "props option \<Rightarrow> bool" where
  "props_wrapped p = (case p of None \<Rightarrow> False | Some q \<Rightarrow> wrapped q)"

text \<open>A matcher is a predicate on the props it is handed; its result is used for its
  truthiness.\<close>

type_synonym matcher = "props option \<Rightarrow> bool"

text \<open>A matcher a test may pass: the props have the given value for the given
  property.\<close>

definition has_attr :: "string \<Rightarrow> string \<Rightarrow> matcher" where
  "has_attr k v p = (case p of None \<Rightarrow> False | Some q \<Rightarrow> map_of (attrs q) k = Some v)"

text \<open>What \<^verbatim>\<open>origCreateElement(type, props, ...children)\<close> is called with.\<close>

record element =
  etype :: component
  eprops :: "props option"
  echildren :: "string list"

definition origCreateElement :: "component \<Rightarrow> props option \<Rightarrow> string list \<Rightarrow> element" where
  "origCreateElement t p children = \<lparr>etype = t, eprops = p, echildren = children\<rparr>"

subsection \<open>Component stubs\<close>

text \<open>A mock implementation, named by its display name; \<^verbatim>\<open>null\<close> is \<open>None\<close>.\<close>

type_synonym implementation = string

text \<open>The state setter \<^verbatim>\<open>useState\<close> hands to the wrapper.\<close>

datatype setter = SetRefresherInternal

text \<open>A promise made by \<^verbatim>\<open>_pushPendingHook\<close>. Promises are named by their position in the
  stub's list of promises.\<close>

datatype 'v promise = Pending | Fulfilled 'v

text \<open>An entry of \<^verbatim>\<open>pendingHooks\<close>: the closure \<^verbatim>\<open>() => { const result = func();
  resolver(result); }\<close>, which holds the hook procedure and the resolver of its promise.
  A hook procedure reads the state in scope of the render that calls it, \<open>'e\<close>, and
  returns a value, \<open>'v\<close>.\<close>

record ('e, 'v) pending_hook =
  func :: "'e \<Rightarrow> 'v"
  resolver :: nat

text \<open>What \<^verbatim>\<open>useMemo\<close> selects as \<^verbatim>\<open>Impl\<close>.\<close>

datatype impl_choice = MockImpl | OrigImpl component

text \<open>The hook state React keeps for the mounted wrapper: the \<^verbatim>\<open>refresher\<close> counter of
  \<^verbatim>\<open>useState(0)\<close>, with the updates queued by the setter already applied, and the
  dependency \<^verbatim>\<open>[refresher]\<close> and values of the two \<^verbatim>\<open>useMemo\<close> calls.\<close>

record ('e, 'v) wrapper_state =
  refresher :: nat
  memo_deps :: nat
  memo_hooks :: "('e, 'v) pending_hook list"
  memo_Impl :: impl_choice

text \<open>
  A \<^verbatim>\<open>ComponentStub\<close>: its fields, the variables \<^verbatim>\<open>setRefresher\<close> and \<^verbatim>\<open>pendingHooks\<close> its
  closures share, and the hook state of its wrapper (\<open>None\<close> until the wrapper renders
  for the first time). Two logs record what is observed of the hooks: \<open>calls\<close> lists, in
  order, the promise of every hook procedure called, and \<open>settled\<close> lists the promises in
  the order they were fulfilled.
\<close>

record ('e, 'v) stub =
  matcher :: "matcher option"
  implementation :: "implementation option"
  stub_props :: "props option"
  stubbed :: component
  wrapper :: component
  setRefresher :: "setter option"
  pendingHooks :: "('e, 'v) pending_hook list"
  react :: "('e, 'v) wrapper_state option"
  promises :: "'v promise list"
  calls :: "nat list"
  settled :: "nat list"

text \<open>The pending hooks that pushing the procedures \<open>fs\<close> in turn adds, when \<open>n\<close>
  promises were made before.\<close>

fun enqueued :: "('e \<Rightarrow> 'v) list \<Rightarrow> nat \<Rightarrow> ('e, 'v) pending_hook list" where
  "enqueued [] n = []"
| "enqueued (f # fs) n = \<lparr>func = f, resolver = n\<rparr> # enqueued fs (Suc n)"

text \<open>\<^verbatim>\<open>new ComponentStub(fixture, Component, matcher)\<close>, where \<open>k\<close> stubs were registered
  for \<open>Component\<close> before.\<close>

definition new_stub :: "component \<Rightarrow> matcher option \<Rightarrow> nat \<Rightarrow> ('e, 'v) stub" where
  "new_stub Component m k =
     \<lparr>matcher = m, implementation = None, stub_props = None, stubbed = Component,
      wrapper = Wrapper Component k, setRefresher = None, pendingHooks = [],
      react = None, promises = [], calls = [], settled = []\<rparr>"

datatype js_error = TypeError string

text \<open>Calling \<^verbatim>\<open>setRefresher(f)\<close>: a \<^verbatim>\<open>TypeError\<close> when the variable is still
  \<^verbatim>\<open>undefined\<close>; otherwise React queues \<open>f\<close> for the counter.\<close>

definition call_setRefresher ::
  "(nat \<Rightarrow> nat) \<Rightarrow> ('e, 'v) stub \<Rightarrow> js_error + ('e, 'v) stub" where
  "call_setRefresher f st =
     (case setRefresher st of
        None \<Rightarrow> Inl (TypeError ''setRefresher is not a function'')
      | Some SetRefresherInternal \<Rightarrow>
          Inr (st\<lparr>react := map_option (\<lambda>w. w\<lparr>refresher := f (refresher w)\<rparr>) (react st)\<rparr>))"

text \<open>\<^verbatim>\<open>this._refresh()\<close>: inside \<^verbatim>\<open>act\<close>, \<^verbatim>\<open>if (setRefresher) { setRefresher((v) => v + 1); }\<close>.
  The render pass that \<^verbatim>\<open>act\<close> then flushes is \<open>render_wrapper\<close> below.\<close>

definition refresh :: "('e, 'v) stub \<Rightarrow> js_error + ('e, 'v) stub" where
  "refresh st =
     (if setRefresher st \<noteq> None then call_setRefresher (\<lambda>v. v + 1) st else Inr st)"

text \<open>\<^verbatim>\<open>this._pushPendingHook(func)\<close> returns the promise it made.\<close>

definition pushPendingHook ::
  "('e \<Rightarrow> 'v) \<Rightarrow> ('e, 'v) stub \<Rightarrow> js_error + (('e, 'v) stub \<times> nat)" where
  "pushPendingHook f st =
     (let promise = length (promises st);
          st1 = st\<lparr>promises := promises st @ [Pending],
                   pendingHooks := pendingHooks st @ [\<lparr>func = f, resolver = promise\<rparr>]\<rparr>
      in case refresh st1 of
           Inl e \<Rightarrow> Inl e
         | Inr st2 \<Rightarrow> Inr (st2, promise))"

definition mockImplementation ::
  "implementation option \<Rightarrow> ('e, 'v) stub \<Rightarrow> js_error + ('e, 'v) stub" where
  "mockImplementation impl st = refresh (st\<lparr>implementation := impl\<rparr>)"

definition callFake ::
  "implementation option \<Rightarrow> ('e, 'v) stub \<Rightarrow> js_error + ('e, 'v) stub" where
  "callFake impl st = mockImplementation impl st"

text \<open>\<^verbatim>\<open>stub.renderHook(func)\<close> pushes the hook inside \<^verbatim>\<open>fixture.act\<close>.\<close>

definition renderHook ::
  "('e \<Rightarrow> 'v) \<Rightarrow> ('e, 'v) stub \<Rightarrow> js_error + (('e, 'v) stub \<times> nat)" where
  "renderHook f st = pushPendingHook f st"

text \<open>\<^verbatim>\<open>resolver(result)\<close>: fulfils a pending promise, does nothing to a fulfilled one.\<close>

definition resolve_promise :: "nat \<Rightarrow> 'v \<Rightarrow> 'v promise list \<Rightarrow> 'v promise list" where
  "resolve_promise i v ps =
     (if i < length ps \<and> ps ! i = Pending then ps[i := Fulfilled v] else ps)"

text \<open>One pending hook called by \<^verbatim>\<open>HookExecutor\<close>: \<^verbatim>\<open>const result = func(); resolver(result);\<close>.\<close>

definition run_hook :: "'e \<Rightarrow> ('e, 'v) pending_hook \<Rightarrow> ('e, 'v) stub \<Rightarrow> ('e, 'v) stub" where
  "run_hook env h st =
     (let result = func h env
      in st\<lparr>calls := calls st @ [resolver h],
            settled := (if resolver h < length (promises st)
                            \<and> promises st ! resolver h = Pending
                        then settled st @ [resolver h] else settled st),
            promises := resolve_promise (resolver h) result (promises st)\<rparr>)"

text \<open>\<^verbatim>\<open>HookExecutor\<close>: \<^verbatim>\<open>hooks.forEach((func) => func())\<close>.\<close>

definition HookExecutor ::
  "'e \<Rightarrow> ('e, 'v) pending_hook list \<Rightarrow> ('e, 'v) stub \<Rightarrow> ('e, 'v) stub" where
  "HookExecutor env hooks st = fold (run_hook env) hooks st"

text \<open>The value of the second \<^verbatim>\<open>useMemo\<close> when it is computed.\<close>

definition select_Impl :: "('e, 'v) stub \<Rightarrow> impl_choice" where
  "select_Impl st =
     (case implementation st of Some i \<Rightarrow> MockImpl | None \<Rightarrow> OrigImpl (stubbed st))"

text \<open>
  One render pass of the wrapper with the given props, in a render scope \<open>env\<close>.
  The wrapper stores the props and the setter; \<^verbatim>\<open>useState(0)\<close> gives 0 on the first
  render and the current counter afterwards; each \<^verbatim>\<open>useMemo\<close> computes its value on the
  first render and when \<^verbatim>\<open>refresher\<close> differs from the stored dependency, and returns
  the stored value otherwise; the first one empties \<^verbatim>\<open>pendingHooks\<close> when it computes.
  The wrapper returns a \<^verbatim>\<open>HookExecutor\<close> element with the hooks, which React renders in
  the same pass.
\<close>

definition render_wrapper :: "'e \<Rightarrow> props \<Rightarrow> ('e, 'v) stub \<Rightarrow> ('e, 'v) stub" where
  "render_wrapper env p st =
     (let st1 = st\<lparr>stub_props := Some p, setRefresher := Some SetRefresherInternal\<rparr>;
          r = (case react st of None \<Rightarrow> 0 | Some w \<Rightarrow> refresher w);
          compute = (case react st of None \<Rightarrow> True | Some w \<Rightarrow> memo_deps w \<noteq> r);
          hooks = (case react st of
                     None \<Rightarrow> pendingHooks st
                   | Some w \<Rightarrow> if compute then pendingHooks st else memo_hooks w);
          Impl = (case react st of
                    None \<Rightarrow> select_Impl st
                  | Some w \<Rightarrow> if compute then select_Impl st else memo_Impl w);
          st2 = st1\<lparr>pendingHooks := (if compute then [] else pendingHooks st),
                    react := Some \<lparr>refresher = r, memo_deps = r, memo_hooks = hooks,
                                   memo_Impl = Impl\<rparr>\<rparr>
      in HookExecutor env hooks st2)"

text \<open>What happens to a stub: its methods are called, and React renders its wrapper.\<close>

datatype ('e, 'v) stub_op =
    PushPendingHook "'e \<Rightarrow> 'v"
  | RenderHook "'e \<Rightarrow> 'v"
  | MockImplementation "implementation option"
  | CallFake "implementation option"
  | RenderPass 'e props

fun stub_step :: "('e, 'v) stub_op \<Rightarrow> ('e, 'v) stub \<Rightarrow> js_error + ('e, 'v) stub" where
  "stub_step (PushPendingHook f) st = map_sum id fst (pushPendingHook f st)"
| "stub_step (RenderHook f) st = map_sum id fst (renderHook f st)"
| "stub_step (MockImplementation i) st = mockImplementation i st"
| "stub_step (CallFake i) st = callFake i st"
| "stub_step (RenderPass env p) st = Inr (render_wrapper env p st)"

fun is_render :: "('e, 'v) stub_op \<Rightarrow> bool" where
  "is_render (RenderPass env p) = True"
| "is_render x = False"

text \<open>A sequence of operations stops at the first error, as an exception would.\<close>

fun stub_run :: "('e, 'v) stub_op list \<Rightarrow> ('e, 'v) stub \<Rightarrow> js_error + ('e, 'v) stub" where
  "stub_run [] st = Inr st"
| "stub_run (x # xs) st =
     (case stub_step x st of Inl e \<Rightarrow> Inl e | Inr st' \<Rightarrow> stub_run xs st')"

text \<open>
  What holds of a stub however it is used: the setter is set exactly when the wrapper
  has rendered; after a render the stored dependency is the counter, and a hook is
  pending only when the counter has moved since; the pending hooks have distinct
  promises, all of them pending.
\<close>

definition stub_inv :: "('e, 'v) stub \<Rightarrow> bool" where
  "stub_inv st =
     ((setRefresher st = None) = (react st = None)
      \<and> (case react st of
           None \<Rightarrow> True
         | Some w \<Rightarrow> memo_deps w \<le> refresher w
                     \<and> (pendingHooks st = [] \<or> memo_deps w < refresher w))
      \<and> distinct (map resolver (pendingHooks st))
      \<and> list_all (\<lambda>h. resolver h < length (promises st)
                        \<and> promises st ! resolver h = Pending) (pendingHooks st))"

subsection \<open>The fixture\<close>

text \<open>The fields of a \<^verbatim>\<open>Fixture\<close> that its methods below read or write. The stubs of
  \<^verbatim>\<open>_componentStubs\<close> are held by value, each list in registration order, so a stub is
  addressed by its component and its position in the list; \<^verbatim>\<open>_layoutStub\<close> is the stub
  at \<open>(WorkspaceLayout, 0)\<close>. \<open>features\<close> is what \<^verbatim>\<open>render()\<close> gave the \<^verbatim>\<open>FlagsProvider\<close>.\<close>

type_synonym flags = "string \<rightharpoonup> bool"

record ('e, 'v) fixture =
  flags :: flags
  componentStubs :: "component \<rightharpoonup> ('e, 'v) stub list"
  container :: "string option"
  features :: "flags option"

type_synonym handle = "component \<times> nat"

text \<open>\<^verbatim>\<open>stubComponent(component, matcher)\<close> returns the new stub, here its address.\<close>

definition stubComponent ::
  "component \<Rightarrow> matcher option \<Rightarrow> ('e, 'v) fixture \<Rightarrow> ('e, 'v) fixture \<times> handle" where
  "stubComponent c m fx =
     (let stubs = (case componentStubs fx c of None \<Rightarrow> [] | Some ss \<Rightarrow> ss);
          stub = new_stub c m (length stubs)
      in (fx\<lparr>componentStubs := (componentStubs fx)(c \<mapsto> stubs @ [stub])\<rparr>,
          (c, length stubs)))"

text \<open>A method called on the stub a handle names. A handle that names no stub is an
  \<^verbatim>\<open>undefined\<close> receiver.\<close>

definition on_stub ::
  "handle \<Rightarrow> ('e, 'v) stub_op \<Rightarrow> ('e, 'v) fixture \<Rightarrow> js_error + ('e, 'v) fixture" where
  "on_stub h x fx =
     (case componentStubs fx (fst h) of
        None \<Rightarrow> Inl (TypeError ''stub is undefined'')
      | Some stubs \<Rightarrow>
          if snd h < length stubs
          then (case stub_step x (stubs ! snd h) of
                  Inl e \<Rightarrow> Inl e
                | Inr st \<Rightarrow>
                    Inr (fx\<lparr>componentStubs :=
                              (componentStubs fx)(fst h \<mapsto> stubs[snd h := st])\<rparr>))
          else Inl (TypeError ''stub is undefined''))"

definition setFlags :: "flags \<Rightarrow> ('e, 'v) fixture \<Rightarrow> ('e, 'v) fixture" where
  "setFlags f fx = fx\<lparr>flags := f\<rparr>"

text \<open>\<^verbatim>\<open>render()\<close> hands \<^verbatim>\<open>this._flags\<close> to the \<^verbatim>\<open>FlagsProvider\<close> and keeps the container.
  The render passes of the wrappers in the mounted tree are React's, and are the
  \<open>RenderPass\<close> operations below.\<close>

definition render :: "('e, 'v) fixture \<Rightarrow> ('e, 'v) fixture" where
  "render fx = fx\<lparr>container := Some ''container'', features := Some (flags fx)\<rparr>"

text \<open>The fields as the constructor first sets them: \<^verbatim>\<open>this._flags = {}\<close>,
  \<^verbatim>\<open>this._componentStubs = new Map()\<close>.\<close>

definition bare_fixture :: "('e, 'v) fixture" where
  "bare_fixture = \<lparr>flags = Map.empty, componentStubs = Map.empty, container = None,
                    features = None\<rparr>"

text \<open>\<^verbatim>\<open>new Fixture()\<close>: no flags, a stub for \<^verbatim>\<open>APIProvider\<close> that fakes it, and the layout
  stub for \<^verbatim>\<open>WorkspaceLayout\<close>.\<close>

definition new_Fixture :: "js_error + ('e, 'v) fixture" where
  "new_Fixture =
     (let (fx1, api) = stubComponent APIProvider None bare_fixture
      in case on_stub api (CallFake (Some ''Fixture(APIProvider)'')) fx1 of
           Inl e \<Rightarrow> Inl e
         | Inr fx2 \<Rightarrow> Inr (fst (stubComponent WorkspaceLayout None fx2)))"

text \<open>The calls a test makes on a fixture and its stubs, and the render passes of
  React in between.\<close>

datatype ('e, 'v) fixture_call =
    SetFlags flags
  | StubComponent component "matcher option"
  | Render
  | FixtureRenderHook "'e \<Rightarrow> 'v"
  | OnStub handle "('e, 'v) stub_op"

fun fixture_step ::
  "('e, 'v) fixture_call \<Rightarrow> ('e, 'v) fixture \<Rightarrow> js_error + ('e, 'v) fixture" where
  "fixture_step (SetFlags f) fx = Inr (setFlags f fx)"
| "fixture_step (StubComponent c m) fx = Inr (fst (stubComponent c m fx))"
| "fixture_step Render fx = Inr (render fx)"
| "fixture_step (FixtureRenderHook f) fx = on_stub (WorkspaceLayout, 0) (RenderHook f) fx"
| "fixture_step (OnStub h x) fx = on_stub h x fx"

fun fixture_run ::
  "('e, 'v) fixture_call list \<Rightarrow> ('e, 'v) fixture \<Rightarrow> js_error + ('e, 'v) fixture" where
  "fixture_run [] fx = Inr fx"
| "fixture_run (x # xs) fx =
     (case fixture_step x fx of Inl e \<Rightarrow> Inl e | Inr fx' \<Rightarrow> fixture_run xs fx')"

text \<open>Whether a stub matches the props: \<^verbatim>\<open>if (!stub._matcher) return true;
  return stub._matcher(props);\<close>.\<close>

definition stub_matches :: "props option \<Rightarrow> ('e, 'v) stub \<Rightarrow> bool" where
  "stub_matches p stub = (case matcher stub of None \<Rightarrow> True | Some m \<Rightarrow> m p)"

text \<open>The type the spy passes on: the wrapper of the first matching stub, if the props
  are not marked \<^verbatim>\<open>_wrapped\<close>, the component has stubs and one of them matches.\<close>

definition substituted_type :: "('e, 'v) fixture \<Rightarrow> component \<Rightarrow> props option \<Rightarrow> component" where
  "substituted_type fx t p =
     (if \<not> props_wrapped p
      then (case componentStubs fx t of
              None \<Rightarrow> t
            | Some stubs \<Rightarrow>
                (case List.find (stub_matches p) stubs of
                   None \<Rightarrow> t
                 | Some match \<Rightarrow> wrapper match))
      else t)"

text \<open>The fake the constructor installs on \<^verbatim>\<open>React.createElement\<close>.\<close>

definition createElement ::
  "('e, 'v) fixture \<Rightarrow> component \<Rightarrow> props option \<Rightarrow> string list \<Rightarrow> element" where
  "createElement fx t p children = origCreateElement (substituted_type fx t p) p children"


section \<open>Properties of the settings reducer\<close>

subsection \<open>The unit test's four cases hold of the model\<close>

lemma test_fetch_settings_success:
  "toMatchObject
     (settingsReducer mocked_now initialState
        \<lparr>atype = FETCH_SETTINGS_SUCCESS, payload = settings_payload (JSString ''fakeId12345'')\<rparr>)
     \<lparr>error = empty_error, googleAnalyticsId = JSString ''fakeId12345''\<rparr>"
  by (simp add: toMatchObject_def error_matches_def settingsReducer_def initialState_def
      settings_payload_def empty_error_def)

lemma test_fetch_settings_failure:
  "toMatchObject
     (settingsReducer mocked_now initialState
        \<lparr>atype = FETCH_SETTINGS_FAILURE,
         payload = failure_payload
           \<lparr>body = ''The response is not a valid JSON response.'',
            title = ''Unable to find settings data''\<rparr> ''my_error_code''\<rparr>)
     \<lparr>error = \<lparr>e_message = Some \<lparr>body = ''The response is not a valid JSON response.'',
                                 title = ''Unable to find settings data''\<rparr>,
               e_id = Some mocked_now, e_code = Some ''my_error_code''\<rparr>,
      googleAnalyticsId = JSNull\<rparr>"
  by (simp add: toMatchObject_def error_matches_def settingsReducer_def initialState_def
      failure_payload_def)

lemma test_update_settings_failure:
  "toMatchObject
     (settingsReducer mocked_now initialState
        \<lparr>atype = UPDATE_SETTINGS_FAILURE,
         payload = failure_payload
           \<lparr>body = ''The response is not a valid JSON response.'',
            title = ''Unable to update settings data''\<rparr> ''my_error_code''\<rparr>)
     \<lparr>error = \<lparr>e_message = Some \<lparr>body = ''The response is not a valid JSON response.'',
                                 title = ''Unable to update settings data''\<rparr>,
               e_id = Some mocked_now, e_code = Some ''my_error_code''\<rparr>,
      googleAnalyticsId = JSNull\<rparr>"
  by (simp add: toMatchObject_def error_matches_def settingsReducer_def initialState_def
      failure_payload_def)

lemma test_update_settings_success:
  "toMatchObject
     (settingsReducer mocked_now initialState
        \<lparr>atype = FETCH_SETTINGS_SUCCESS,
         payload = settings_payload (JSString ''fakeId12345NEW'')\<rparr>)
     \<lparr>error = empty_error, googleAnalyticsId = JSString ''fakeId12345NEW''\<rparr>"
  by (simp add: toMatchObject_def error_matches_def settingsReducer_def initialState_def
      settings_payload_def empty_error_def)

subsection \<open>Failure actions\<close>

text \<open>
  Claim C1. For every failure action (\<^verbatim>\<open>FETCH_SETTINGS_FAILURE\<close> or
  \<^verbatim>\<open>UPDATE_SETTINGS_FAILURE\<close>) whose payload is \<^verbatim>\<open>{message, code}\<close>, the reducer returns
  a state whose error is \<^verbatim>\<open>{message, id: Date.now(), code}\<close>; every other field of the
  state, \<^verbatim>\<open>googleAnalyticsId\<close> and whatever further fields the state has, is unchanged.
\<close>

theorem failure_sets_error:
  fixes state :: "'z settings_state_scheme"
  assumes "is_failure (atype act)" and "payload act = failure_payload m c"
  shows "error (settingsReducer now state act)
           = \<lparr>e_message = Some m, e_id = Some now, e_code = Some c\<rparr>
       \<and> googleAnalyticsId (settingsReducer now state act) = googleAnalyticsId state
       \<and> settings_state.more (settingsReducer now state act) = settings_state.more state"
  using assms
  by (auto simp: is_failure_def settingsReducer_def failure_payload_def)

text \<open>The literal example of the claim: state \<^verbatim>\<open>{error: {}, googleAnalyticsId: null}\<close>,
  payload \<^verbatim>\<open>{message: {body: 'x', title: 'y'}, code: 'E1'}\<close>.\<close>

theorem failure_sets_error_witness:
  "is_failure FETCH_SETTINGS_FAILURE
   \<and> settingsReducer mocked_now \<lparr>error = empty_error, googleAnalyticsId = JSNull\<rparr>
       \<lparr>atype = FETCH_SETTINGS_FAILURE,
        payload = failure_payload \<lparr>body = ''x'', title = ''y''\<rparr> ''E1''\<rparr>
     = \<lparr>error = \<lparr>e_message = Some \<lparr>body = ''x'', title = ''y''\<rparr>,
                 e_id = Some mocked_now, e_code = Some ''E1''\<rparr>,
        googleAnalyticsId = JSNull\<rparr>"
proof -
  let ?a = "\<lparr>atype = FETCH_SETTINGS_FAILURE,
             payload = failure_payload \<lparr>body = ''x'', title = ''y''\<rparr> ''E1''\<rparr>"
  let ?s = "\<lparr>error = empty_error, googleAnalyticsId = JSNull\<rparr>"
  have f: "is_failure (atype ?a)" by (simp add: is_failure_def)
  have p: "payload ?a = failure_payload \<lparr>body = ''x'', title = ''y''\<rparr> ''E1''" by simp
  from failure_sets_error [OF f p, of mocked_now ?s]
  have "error (settingsReducer mocked_now ?s ?a)
          = \<lparr>e_message = Some \<lparr>body = ''x'', title = ''y''\<rparr>,
             e_id = Some mocked_now, e_code = Some ''E1''\<rparr>"
    and "googleAnalyticsId (settingsReducer mocked_now ?s ?a) = JSNull"
    by simp_all
  then have "settingsReducer mocked_now ?s ?a
     = \<lparr>error = \<lparr>e_message = Some \<lparr>body = ''x'', title = ''y''\<rparr>,
                 e_id = Some mocked_now, e_code = Some ''E1''\<rparr>,
        googleAnalyticsId = JSNull\<rparr>"
    by (cases "settingsReducer mocked_now ?s ?a") simp
  then show ?thesis by (simp add: is_failure_def)
qed

subsection \<open>Success actions\<close>

text \<open>
  Claim C5. For every success action (\<^verbatim>\<open>FETCH_SETTINGS_SUCCESS\<close> or
  \<^verbatim>\<open>UPDATE_SETTINGS_SUCCESS\<close>) whose payload is \<^verbatim>\<open>{googleAnalyticsId: v}\<close>, the reducer
  returns a state whose \<^verbatim>\<open>googleAnalyticsId\<close> is exactly \<open>v\<close>.
\<close>

theorem success_replaces_id:
  fixes state :: "'z settings_state_scheme"
  assumes "is_success (atype act)" and "payload act = settings_payload v"
  shows "googleAnalyticsId (settingsReducer now state act) = v"
  using assms
  by (auto simp: is_success_def settingsReducer_def settings_payload_def)

theorem success_replaces_id_witness:
  "is_success FETCH_SETTINGS_SUCCESS
   \<and> googleAnalyticsId (settingsReducer mocked_now initialState
       \<lparr>atype = FETCH_SETTINGS_SUCCESS, payload = settings_payload (JSString ''fakeId12345'')\<rparr>)
     = JSString ''fakeId12345''"
  using success_replaces_id [of "\<lparr>atype = FETCH_SETTINGS_SUCCESS,
      payload = settings_payload (JSString ''fakeId12345'')\<rparr>" "JSString ''fakeId12345''"
      mocked_now initialState]
  by (simp add: is_success_def)

text \<open>
  Claim C6. Success actions are idempotent: for every state \<open>s\<close> and every success
  action \<open>a\<close>, reducing \<open>s\<close> by \<open>a\<close> twice gives the state that reducing once gives.
\<close>

theorem success_idempotent:
  fixes state :: "'z settings_state_scheme"
  assumes "is_success (atype act)"
  shows "settingsReducer now' (settingsReducer now state act) act
           = settingsReducer now state act"
  using assms
  by (auto simp: is_success_def settingsReducer_def)

theorem success_idempotent_witness:
  "is_success UPDATE_SETTINGS_SUCCESS
   \<and> settingsReducer mocked_now
       (settingsReducer mocked_now initialState
          \<lparr>atype = UPDATE_SETTINGS_SUCCESS, payload = settings_payload (JSString ''id1'')\<rparr>)
       \<lparr>atype = UPDATE_SETTINGS_SUCCESS, payload = settings_payload (JSString ''id1'')\<rparr>
     = \<lparr>error = empty_error, googleAnalyticsId = JSString ''id1''\<rparr>"
  using success_idempotent [of "\<lparr>atype = UPDATE_SETTINGS_SUCCESS,
      payload = settings_payload (JSString ''id1'')\<rparr>" mocked_now mocked_now initialState]
  by (simp add: is_success_def settingsReducer_def initialState_def settings_payload_def)

subsection \<open>Unrecognized actions\<close>

text \<open>
  Claim C7. For every state \<open>s\<close> and every action whose type is none of the four
  recognized types, the reducer returns \<open>s\<close> itself. The reducer is a total function into
  states, so it raises nothing.
\<close>

theorem unrecognized_unchanged:
  fixes state :: "'z settings_state_scheme"
  assumes "\<not> is_recognized (atype act)"
  shows "settingsReducer now state act = state"
  using assms
  by (cases "atype act") (auto simp: is_recognized_def is_success_def is_failure_def
      settingsReducer_def)

theorem unrecognized_unchanged_witness:
  "\<not> is_recognized (UNRECOGNIZED ''RESET'')
   \<and> settingsReducer mocked_now initialState
       \<lparr>atype = UNRECOGNIZED ''RESET'', payload = settings_payload JSUndefined\<rparr>
     = initialState"
  using unrecognized_unchanged [of "\<lparr>atype = UNRECOGNIZED ''RESET'',
      payload = settings_payload JSUndefined\<rparr>" mocked_now initialState]
  by (simp add: is_recognized_def is_success_def is_failure_def)


section \<open>Properties of the fixture\<close>

subsection \<open>Stub lookup in \<^verbatim>\<open>createElement\<close>\<close>

lemma find_first_match:
  "\<forall>s\<in>set pre. \<not> P s \<Longrightarrow> P m \<Longrightarrow> List.find P (pre @ m # post) = Some m"
  by (induction pre) auto

lemma find_no_match:
  "\<forall>s\<in>set xs. \<not> P s \<Longrightarrow> List.find P xs = None"
  by (simp add: find_None_iff)

lemma stubComponent_appends:
  "componentStubs (fst (stubComponent c m fx)) c
     = Some ((case componentStubs fx c of None \<Rightarrow> [] | Some ss \<Rightarrow> ss)
             @ [new_stub c m (length (case componentStubs fx c of None \<Rightarrow> [] | Some ss \<Rightarrow> ss))])"
  by (simp add: stubComponent_def Let_def)

lemma stubComponent_other:
  "c' \<noteq> c \<Longrightarrow> componentStubs (fst (stubComponent c m fx)) c' = componentStubs fx c'"
  by (simp add: stubComponent_def Let_def)

lemma createElement_bypass:
  "props_wrapped p \<Longrightarrow> createElement fx t p ch = origCreateElement t p ch"
  by (simp add: createElement_def substituted_type_def)

lemma createElement_no_stubs:
  "componentStubs fx t = None \<Longrightarrow> createElement fx t p ch = origCreateElement t p ch"
  by (simp add: createElement_def substituted_type_def)

lemma createElement_no_match:
  "componentStubs fx t = Some stubs \<Longrightarrow> \<forall>s\<in>set stubs. \<not> stub_matches p s
   \<Longrightarrow> createElement fx t p ch = origCreateElement t p ch"
  by (simp add: createElement_def substituted_type_def find_no_match)

lemma createElement_match:
  "\<not> props_wrapped p \<Longrightarrow> componentStubs fx t = Some (pre @ m # post)
   \<Longrightarrow> \<forall>s\<in>set pre. \<not> stub_matches p s \<Longrightarrow> stub_matches p m
   \<Longrightarrow> createElement fx t p ch = origCreateElement (wrapper m) p ch"
  by (simp add: createElement_def substituted_type_def find_first_match)

lemma two_rules_registered:
  fixes fx :: "('e, 'v) fixture"
  assumes "componentStubs fx t = None"
  shows "componentStubs (fst (stubComponent t None (fst (stubComponent t (Some q) fx)))) t
           = Some [new_stub t (Some q) 0, new_stub t None 1]"
  using assms by (simp add: stubComponent_def Let_def)

lemma new_Fixture_value:
  "(new_Fixture :: js_error + ('e, 'v) fixture)
     = Inr \<lparr>flags = Map.empty,
            componentStubs =
              [APIProvider \<mapsto> [(new_stub APIProvider None 0)
                                   \<lparr>implementation := Some ''Fixture(APIProvider)''\<rparr>],
               WorkspaceLayout \<mapsto> [new_stub WorkspaceLayout None 0]],
            container = None, features = None\<rparr>"
  by (simp add: new_Fixture_def stubComponent_def bare_fixture_def Let_def on_stub_def
      callFake_def mockImplementation_def refresh_def new_stub_def)

text \<open>
  Claim C3, amended. When a component \<open>t\<close> is instantiated with props \<open>p\<close> that are not
  marked \<^verbatim>\<open>_wrapped\<close>, the stubs registered for \<open>t\<close> are scanned in registration order,
  and the first one whose matcher is absent or holds of \<open>p\<close> supplies its wrapper as the
  type of the element; when no stub matches, or none is registered, the element is
  created with \<open>t\<close> itself. Consequently, when a stub with matcher \<open>q\<close> is registered
  for \<open>t\<close> first and a stub without matcher second, props that satisfy \<open>q\<close> select the
  wrapper of the first and props that do not select the wrapper of the second.
\<close>

theorem createElement_first_match:
  fixes fx :: "('e, 'v) fixture"
  assumes "\<not> props_wrapped p"
  shows "(componentStubs fx t = Some (pre @ m # post)
            \<longrightarrow> (\<forall>s\<in>set pre. \<not> stub_matches p s) \<longrightarrow> stub_matches p m
            \<longrightarrow> createElement fx t p ch = origCreateElement (wrapper m) p ch)
       \<and> (componentStubs fx t = Some stubs \<longrightarrow> (\<forall>s\<in>set stubs. \<not> stub_matches p s)
            \<longrightarrow> createElement fx t p ch = origCreateElement t p ch)
       \<and> (componentStubs fx t = None
            \<longrightarrow> createElement fx t p ch = origCreateElement t p ch)
       \<and> (componentStubs fx t = None
            \<longrightarrow> componentStubs (fst (stubComponent t None (fst (stubComponent t (Some q) fx)))) t
                  = Some [new_stub t (Some q) 0, new_stub t None 1]
              \<and> createElement (fst (stubComponent t None (fst (stubComponent t (Some q) fx))))
                    t p ch
                  = origCreateElement
                      (if q p then wrapper (new_stub t (Some q) 0 :: ('e, 'v) stub)
                       else wrapper (new_stub t None 1 :: ('e, 'v) stub)) p ch)"
proof (intro conjI impI)
  assume "componentStubs fx t = Some (pre @ m # post)" "\<forall>s\<in>set pre. \<not> stub_matches p s"
    "stub_matches p m"
  with assms show "createElement fx t p ch = origCreateElement (wrapper m) p ch"
    by (rule createElement_match)
next
  assume "componentStubs fx t = Some stubs" "\<forall>s\<in>set stubs. \<not> stub_matches p s"
  then show "createElement fx t p ch = origCreateElement t p ch"
    by (rule createElement_no_match)
next
  assume "componentStubs fx t = None"
  then show "createElement fx t p ch = origCreateElement t p ch"
    by (rule createElement_no_stubs)
next
  assume "componentStubs fx t = None"
  then show "componentStubs (fst (stubComponent t None (fst (stubComponent t (Some q) fx)))) t
                  = Some [new_stub t (Some q) 0, new_stub t None 1]"
    by (rule two_rules_registered)
next
  let ?fx = "fst (stubComponent t None (fst (stubComponent t (Some q) fx)))"
  assume "componentStubs fx t = None"
  then have reg: "componentStubs ?fx t = Some [new_stub t (Some q) 0, new_stub t None 1]"
    by (rule two_rules_registered)
  show "createElement ?fx t p ch
          = origCreateElement
              (if q p then wrapper (new_stub t (Some q) 0 :: ('e, 'v) stub)
               else wrapper (new_stub t None 1 :: ('e, 'v) stub)) p ch"
  proof (cases "q p")
    case True
    have "createElement ?fx t p ch
            = origCreateElement (wrapper (new_stub t (Some q) 0 :: ('e, 'v) stub)) p ch"
      using assms reg True
      by (intro createElement_match [where pre = "[]" and post = "[new_stub t None 1]"])
         (simp_all add: stub_matches_def new_stub_def)
    then show ?thesis using True by simp
  next
    case False
    have "createElement ?fx t p ch
            = origCreateElement (wrapper (new_stub t None 1 :: ('e, 'v) stub)) p ch"
      using assms reg False
      by (intro createElement_match [where pre = "[new_stub t (Some q) 0]" and post = "[]"])
         (simp_all add: stub_matches_def new_stub_def)
    then show ?thesis using False by simp
  qed
qed

theorem createElement_first_match_witness:
  "\<not> props_wrapped (Some \<lparr>wrapped = False, attrs = [(''id'', ''main'')]\<rparr>)
   \<and> \<not> props_wrapped None
   \<and> componentStubs (bare_fixture :: (nat, nat) fixture) WorkspaceLayout = None
   \<and> has_attr ''id'' ''main'' (Some \<lparr>wrapped = False, attrs = [(''id'', ''main'')]\<rparr>)
   \<and> \<not> has_attr ''id'' ''main'' None
   \<and> createElement
        (fst (stubComponent WorkspaceLayout None
           (fst (stubComponent WorkspaceLayout (Some (has_attr ''id'' ''main''))
                   (bare_fixture :: (nat, nat) fixture)))))
        WorkspaceLayout (Some \<lparr>wrapped = False, attrs = [(''id'', ''main'')]\<rparr>) []
      = \<lparr>etype = Wrapper WorkspaceLayout 0,
         eprops = Some \<lparr>wrapped = False, attrs = [(''id'', ''main'')]\<rparr>, echildren = []\<rparr>
   \<and> createElement
        (fst (stubComponent WorkspaceLayout None
           (fst (stubComponent WorkspaceLayout (Some (has_attr ''id'' ''main''))
                   (bare_fixture :: (nat, nat) fixture)))))
        WorkspaceLayout None []
      = \<lparr>etype = Wrapper WorkspaceLayout 1, eprops = None, echildren = []\<rparr>"
proof -
  let ?p = "Some \<lparr>wrapped = False, attrs = [(''id'', ''main'')]\<rparr>"
  let ?b = "bare_fixture :: (nat, nat) fixture"
  have w1: "\<not> props_wrapped ?p" and w2: "\<not> props_wrapped None"
    by (simp_all add: props_wrapped_def)
  have none: "componentStubs ?b WorkspaceLayout = None"
    by (simp add: bare_fixture_def)
  have m1: "has_attr ''id'' ''main'' ?p" and m2: "\<not> has_attr ''id'' ''main'' None"
    by (simp_all add: has_attr_def)
  from createElement_first_match [OF w1, of ?b WorkspaceLayout _ _ _ _ _ "has_attr ''id'' ''main''"]
    none m1
  have a: "createElement
        (fst (stubComponent WorkspaceLayout None
           (fst (stubComponent WorkspaceLayout (Some (has_attr ''id'' ''main'')) ?b))))
        WorkspaceLayout ?p []
      = \<lparr>etype = Wrapper WorkspaceLayout 0, eprops = ?p, echildren = []\<rparr>"
    by (simp add: new_stub_def origCreateElement_def)
  from createElement_first_match [OF w2, of ?b WorkspaceLayout _ _ _ _ _ "has_attr ''id'' ''main''"]
    none m2
  have b: "createElement
        (fst (stubComponent WorkspaceLayout None
           (fst (stubComponent WorkspaceLayout (Some (has_attr ''id'' ''main'')) ?b))))
        WorkspaceLayout None []
      = \<lparr>etype = Wrapper WorkspaceLayout 1, eprops = None, echildren = []\<rparr>"
    by (simp add: new_stub_def origCreateElement_def)
  from w1 w2 none m1 m2 a b show ?thesis by blast
qed

text \<open>
  The claim as it was stated fails in two places. Props marked \<^verbatim>\<open>_wrapped\<close> bypass the
  lookup, so an unconditional stub for \<^verbatim>\<open>Canvas\<close> supplies nothing for them. And the
  first match wins whatever its kind: with the unconditional stub registered first, as
  the constructor registers the layout stub for \<^verbatim>\<open>WorkspaceLayout\<close>, props that satisfy
  the matcher of a later stub still select the unconditional stub's wrapper.
\<close>

theorem createElement_lookup_counterexample:
  "createElement
      (fst (stubComponent (Named ''Canvas'') None (bare_fixture :: (nat, nat) fixture)))
      (Named ''Canvas'') (Some \<lparr>wrapped = True, attrs = []\<rparr>) []
     = \<lparr>etype = Named ''Canvas'', eprops = Some \<lparr>wrapped = True, attrs = []\<rparr>,
        echildren = []\<rparr>
   \<and> has_attr ''id'' ''main'' (Some \<lparr>wrapped = False, attrs = [(''id'', ''main'')]\<rparr>)
   \<and> createElement
        (fst (stubComponent WorkspaceLayout (Some (has_attr ''id'' ''main''))
           (fst (stubComponent WorkspaceLayout None (bare_fixture :: (nat, nat) fixture)))))
        WorkspaceLayout (Some \<lparr>wrapped = False, attrs = [(''id'', ''main'')]\<rparr>) []
     = \<lparr>etype = wrapper (new_stub WorkspaceLayout None 0 :: (nat, nat) stub),
        eprops = Some \<lparr>wrapped = False, attrs = [(''id'', ''main'')]\<rparr>, echildren = []\<rparr>
   \<and> wrapper (new_stub WorkspaceLayout None 0 :: (nat, nat) stub)
       \<noteq> wrapper (new_stub WorkspaceLayout (Some (has_attr ''id'' ''main'')) 1 :: (nat, nat) stub)"
  by (simp add: createElement_def substituted_type_def props_wrapped_def stubComponent_def
      bare_fixture_def Let_def origCreateElement_def stub_matches_def new_stub_def has_attr_def)

subsection \<open>Feature flags\<close>

lemma fixture_run_append:
  "fixture_run (xs @ ys) fx
     = (case fixture_run xs fx of Inl e \<Rightarrow> Inl e | Inr fx' \<Rightarrow> fixture_run ys fx')"
  by (induction xs arbitrary: fx) (auto split: sum.splits)

text \<open>
  Claim C8. \<^verbatim>\<open>setFlags\<close> replaces the flag set, it does not merge: after any sequence of
  calls that ends in \<^verbatim>\<open>setFlags(f)\<close>, the flags of the fixture are a copy of \<open>f\<close> alone,
  and nothing else of the fixture has changed in the last call.
\<close>

theorem setFlags_replaces:
  assumes "fixture_run cs fx = Inr fx1"
  shows "fixture_run (cs @ [SetFlags f]) fx = Inr (fx1\<lparr>flags := f\<rparr>)
       \<and> flags (fx1\<lparr>flags := f\<rparr>) = f"
  using assms by (simp add: fixture_run_append setFlags_def)

theorem setFlags_replaces_witness:
  "fixture_run [SetFlags [''mediaDropdownMenu'' \<mapsto> True], Render]
       (bare_fixture :: (nat, nat) fixture)
     = Inr \<lparr>flags = [''mediaDropdownMenu'' \<mapsto> True], componentStubs = Map.empty,
            container = Some ''container'',
            features = Some [''mediaDropdownMenu'' \<mapsto> True]\<rparr>
   \<and> fixture_run ([SetFlags [''mediaDropdownMenu'' \<mapsto> True], Render]
                   @ [SetFlags [''other'' \<mapsto> False]])
       (bare_fixture :: (nat, nat) fixture)
     = Inr \<lparr>flags = [''other'' \<mapsto> False], componentStubs = Map.empty,
            container = Some ''container'',
            features = Some [''mediaDropdownMenu'' \<mapsto> True]\<rparr>
   \<and> [''other'' \<mapsto> False] ''mediaDropdownMenu'' = None"
proof -
  let ?cs = "[SetFlags [''mediaDropdownMenu'' \<mapsto> True], Render] :: (nat, nat) fixture_call list"
  let ?fx1 = "\<lparr>flags = [''mediaDropdownMenu'' \<mapsto> True], componentStubs = Map.empty,
            container = Some ''container'',
            features = Some [''mediaDropdownMenu'' \<mapsto> True]\<rparr> :: (nat, nat) fixture"
  have r: "fixture_run ?cs bare_fixture = Inr ?fx1"
    by (simp add: bare_fixture_def setFlags_def render_def)
  from setFlags_replaces [OF r, of "[''other'' \<mapsto> False]"] r
  show ?thesis by simp
qed

subsection \<open>Refreshing a stub\<close>

lemma refresh_result:
  "refresh st = Inr (if setRefresher st = None then st
                     else st\<lparr>react := map_option (\<lambda>w. w\<lparr>refresher := refresher w + 1\<rparr>) (react st)\<rparr>)"
  by (auto simp: refresh_def call_setRefresher_def split: option.splits setter.splits)

lemma unguarded_call_throws:
  "setRefresher st = None \<Longrightarrow> call_setRefresher f st = Inl (TypeError ''setRefresher is not a function'')"
  by (simp add: call_setRefresher_def)

lemma stub_run_append:
  "stub_run (xs @ ys) st
     = (case stub_run xs st of Inl e \<Rightarrow> Inl e | Inr st' \<Rightarrow> stub_run ys st')"
  by (induction xs arbitrary: st) (auto split: sum.splits)

lemma push_step:
  "stub_step (PushPendingHook f) st
     = Inr ((if setRefresher st = None then st
             else st\<lparr>react := map_option (\<lambda>w. w\<lparr>refresher := refresher w + 1\<rparr>) (react st)\<rparr>)
            \<lparr>promises := promises st @ [Pending],
             pendingHooks := pendingHooks st @ [\<lparr>func = f, resolver = length (promises st)\<rparr>]\<rparr>)"
  by (simp add: pushPendingHook_def Let_def refresh_result)

lemma renderHook_step:
  "stub_step (RenderHook f) st = stub_step (PushPendingHook f) st"
  by (simp add: renderHook_def)

lemma mock_step:
  "mockImplementation i st
     = Inr (if setRefresher st = None then st\<lparr>implementation := i\<rparr>
            else st\<lparr>implementation := i,
                    react := map_option (\<lambda>w. w\<lparr>refresher := refresher w + 1\<rparr>) (react st)\<rparr>)"
  by (simp add: mockImplementation_def refresh_result)

lemma non_render_step:
  assumes "\<not> is_render x" "setRefresher st = None" "react st = None"
  shows "\<exists>st'. stub_step x st = Inr st' \<and> setRefresher st' = None \<and> react st' = None"
  using assms
  by (cases x) (simp_all add: push_step renderHook_def pushPendingHook_def Let_def
      refresh_result callFake_def mock_step)

lemma non_render_run:
  assumes "\<forall>x\<in>set ops. \<not> is_render x" "setRefresher st = None" "react st = None"
  shows "\<exists>st'. stub_run ops st = Inr st' \<and> setRefresher st' = None \<and> react st' = None"
  using assms
proof (induction ops arbitrary: st)
  case Nil
  then show ?case by simp
next
  case (Cons x ops)
  from Cons.prems have "\<not> is_render x" by simp
  from non_render_step [OF this Cons.prems(2,3)] obtain st1 where
    s: "stub_step x st = Inr st1" "setRefresher st1 = None" "react st1 = None"
    by blast
  from Cons.prems have "\<forall>y\<in>set ops. \<not> is_render y" by simp
  from Cons.IH [OF this s(2,3)] show ?case using s(1) by simp
qed

text \<open>
  Claim C9. Before the wrapper of a stub has rendered for the first time, whatever
  methods were called on the stub, \<^verbatim>\<open>mockImplementation\<close>, \<^verbatim>\<open>callFake\<close> and
  \<^verbatim>\<open>_pushPendingHook\<close> do not throw: the setter is still unset, and \<^verbatim>\<open>_refresh\<close> does
  nothing.
\<close>

theorem refresh_noop_before_first_render:
  fixes ops :: "('e, 'v) stub_op list"
  assumes "\<forall>x\<in>set ops. \<not> is_render x"
  shows "\<exists>st. stub_run ops (new_stub c m k) = Inr st
           \<and> setRefresher st = None
           \<and> refresh st = Inr st
           \<and> mockImplementation i st = Inr (st\<lparr>implementation := i\<rparr>)
           \<and> callFake i st = Inr (st\<lparr>implementation := i\<rparr>)
           \<and> pushPendingHook f st
               = Inr (st\<lparr>promises := promises st @ [Pending],
                         pendingHooks := pendingHooks st
                            @ [\<lparr>func = f, resolver = length (promises st)\<rparr>]\<rparr>,
                      length (promises st))"
proof -
  have "setRefresher (new_stub c m k :: ('e, 'v) stub) = None"
    and "react (new_stub c m k :: ('e, 'v) stub) = None"
    by (simp_all add: new_stub_def)
  from non_render_run [OF assms this] obtain st where
    run: "stub_run ops (new_stub c m k) = Inr st" and unset: "setRefresher st = None"
    by blast
  have r: "refresh st = Inr st"
    using unset by (simp add: refresh_def)
  have mi: "mockImplementation i st = Inr (st\<lparr>implementation := i\<rparr>)"
    using unset by (simp add: mockImplementation_def refresh_def)
  have cf: "callFake i st = Inr (st\<lparr>implementation := i\<rparr>)"
    using mi by (simp add: callFake_def)
  have pp: "pushPendingHook f st
               = Inr (st\<lparr>promises := promises st @ [Pending],
                         pendingHooks := pendingHooks st
                            @ [\<lparr>func = f, resolver = length (promises st)\<rparr>]\<rparr>,
                      length (promises st))"
    using unset by (simp add: pushPendingHook_def Let_def refresh_def)
  from run unset r mi cf pp show ?thesis by blast
qed

theorem refresh_noop_before_first_render_witness:
  "\<not> is_render (MockImplementation (Some ''Fake'') :: (nat, nat) stub_op)
   \<and> \<not> is_render (PushPendingHook Suc :: (nat, nat) stub_op)
   \<and> (\<exists>st. stub_run [MockImplementation (Some ''Fake''), PushPendingHook Suc]
              (new_stub (Named ''Canvas'') None 0) = Inr st
           \<and> st = \<lparr>matcher = None, implementation = Some ''Fake'', stub_props = None,
                   stubbed = Named ''Canvas'', wrapper = Wrapper (Named ''Canvas'') 0,
                   setRefresher = None,
                   pendingHooks = [\<lparr>func = Suc, resolver = 0\<rparr>], react = None,
                   promises = [Pending], calls = [], settled = []\<rparr>
           \<and> refresh st = Inr st
           \<and> callFake None st = Inr (st\<lparr>implementation := None\<rparr>))"
proof -
  let ?ops = "[MockImplementation (Some ''Fake''), PushPendingHook Suc] :: (nat, nat) stub_op list"
  have h: "\<forall>x\<in>set ?ops. \<not> is_render x" by simp
  from refresh_noop_before_first_render [OF h, of "Named ''Canvas''" None 0 None Suc]
  obtain st where
    run: "stub_run ?ops (new_stub (Named ''Canvas'') None 0) = Inr st" and
    r: "refresh st = Inr st" and
    cf: "callFake None st = Inr (st\<lparr>implementation := None\<rparr>)"
    by blast
  have "stub_run ?ops (new_stub (Named ''Canvas'') None 0)
      = Inr \<lparr>matcher = None, implementation = Some ''Fake'', stub_props = None,
                   stubbed = Named ''Canvas'', wrapper = Wrapper (Named ''Canvas'') 0,
                   setRefresher = None,
                   pendingHooks = [\<lparr>func = Suc, resolver = 0\<rparr>], react = None,
                   promises = [Pending], calls = [], settled = []\<rparr>"
    by (simp add: new_stub_def mockImplementation_def pushPendingHook_def refresh_def Let_def)
  with run have "st = \<lparr>matcher = None, implementation = Some ''Fake'', stub_props = None,
                   stubbed = Named ''Canvas'', wrapper = Wrapper (Named ''Canvas'') 0,
                   setRefresher = None,
                   pendingHooks = [\<lparr>func = Suc, resolver = 0\<rparr>], react = None,
                   promises = [Pending], calls = [], settled = []\<rparr>"
    by simp
  moreover have "\<not> is_render (MockImplementation (Some ''Fake'') :: (nat, nat) stub_op)"
    and "\<not> is_render (PushPendingHook Suc :: (nat, nat) stub_op)"
    by simp_all
  ultimately show ?thesis using run r cf by blast
qed

subsection \<open>Pending hooks\<close>

lemma push_inv:
  assumes "stub_inv st" "stub_step (PushPendingHook f) st = Inr st'"
  shows "stub_inv st'"
  using assms unfolding push_step
proof -
  let ?n = "length (promises st)"
  have old: "\<forall>h\<in>set (pendingHooks st). resolver h < ?n \<and> promises st ! resolver h = Pending"
    and dist: "distinct (map resolver (pendingHooks st))"
    using assms(1) by (simp_all add: stub_inv_def list_all_iff)
  have fresh: "?n \<notin> resolver ` set (pendingHooks st)"
    using old by auto
  have all: "\<forall>h\<in>set (pendingHooks st @ [\<lparr>func = f, resolver = ?n\<rparr>]).
               resolver h < length (promises st @ [Pending])
               \<and> (promises st @ [Pending]) ! resolver h = Pending"
    using old by (auto simp: nth_append)
  have dist': "distinct (map resolver (pendingHooks st @ [\<lparr>func = f, resolver = ?n\<rparr>]))"
    using dist fresh by simp
  show ?thesis
    using assms all dist' unfolding push_step
    by (auto simp: stub_inv_def list_all_iff split: option.splits if_splits)
qed


lemma push_fields:
  assumes "stub_step (PushPendingHook f) st = Inr st'"
  shows "pendingHooks st' = pendingHooks st @ [\<lparr>func = f, resolver = length (promises st)\<rparr>]"
    and "promises st' = promises st @ [Pending]"
    and "calls st' = calls st" and "settled st' = settled st"
  using assms unfolding push_step by auto

lemma resolver_enqueued: "map resolver (enqueued fs n) = [n ..< n + length fs]"
proof (induction fs arbitrary: n)
  case Nil
  then show ?case by simp
next
  case (Cons f fs)
  have "[n ..< n + length (f # fs)] = n # [Suc n ..< n + length (f # fs)]"
    by (rule upt_conv_Cons) simp
  moreover have "n + length (f # fs) = Suc n + length fs"
    by simp
  ultimately have "[n ..< n + length (f # fs)] = n # [Suc n ..< Suc n + length fs]"
    by (simp only:)
  moreover have "map resolver (enqueued (f # fs) n) = n # map resolver (enqueued fs (Suc n))"
    by simp
  ultimately show ?case using Cons.IH [of "Suc n"] by (simp only:)
qed

lemma length_enqueued: "length (enqueued fs n) = length fs"
  by (induction fs arbitrary: n) auto

lemma nth_enqueued:
  "i < length fs \<Longrightarrow> enqueued fs n ! i = \<lparr>func = fs ! i, resolver = n + i\<rparr>"
proof (induction fs arbitrary: n i)
  case Nil
  then show ?case by simp
next
  case (Cons f fs)
  then show ?case by (cases i) auto
qed

lemma push_all:
  assumes "stub_inv s"
  shows "\<exists>s1. stub_run (map PushPendingHook fs) s = Inr s1
             \<and> stub_inv s1
             \<and> pendingHooks s1 = pendingHooks s @ enqueued fs (length (promises s))
             \<and> promises s1 = promises s @ replicate (length fs) Pending
             \<and> calls s1 = calls s \<and> settled s1 = settled s"
  using assms
proof (induction fs arbitrary: s)
  case Nil
  then show ?case by simp
next
  case (Cons f fs)
  obtain sa where step: "stub_step (PushPendingHook f) s = Inr sa"
    unfolding push_step by blast
  have inv: "stub_inv sa" using push_inv [OF Cons.prems step] .
  note fld = push_fields [OF step]
  from Cons.IH [OF inv] obtain s1 where
    run: "stub_run (map PushPendingHook fs) sa = Inr s1" and
    inv1: "stub_inv s1" and
    pend: "pendingHooks s1 = pendingHooks sa @ enqueued fs (length (promises sa))" and
    prom: "promises s1 = promises sa @ replicate (length fs) Pending" and
    logs: "calls s1 = calls sa" "settled s1 = settled sa"
    by blast
  have "stub_run (map PushPendingHook (f # fs)) s = Inr s1"
    using step run by simp
  moreover have "pendingHooks s1 = pendingHooks s @ enqueued (f # fs) (length (promises s))"
    using pend fld by simp
  moreover have "promises s1 = promises s @ replicate (length (f # fs)) Pending"
    using prom fld by (simp add: replicate_app_Cons_same)
  ultimately show ?case using inv1 logs fld by auto
qed


lemma run_hook_fields:
  "calls (run_hook env h st) = calls st @ [resolver h]"
  "pendingHooks (run_hook env h st) = pendingHooks st"
  "react (run_hook env h st) = react st"
  "setRefresher (run_hook env h st) = setRefresher st"
  "stub_props (run_hook env h st) = stub_props st"
  "implementation (run_hook env h st) = implementation st"
  "matcher (run_hook env h st) = matcher st"
  "wrapper (run_hook env h st) = wrapper st"
  "stubbed (run_hook env h st) = stubbed st"
  "length (promises (run_hook env h st)) = length (promises st)"
  by (simp_all add: run_hook_def Let_def resolve_promise_def)

lemma HookExecutor_fields:
  "calls (HookExecutor env hooks st) = calls st @ map resolver hooks"
  "pendingHooks (HookExecutor env hooks st) = pendingHooks st"
  "react (HookExecutor env hooks st) = react st"
  "setRefresher (HookExecutor env hooks st) = setRefresher st"
  "stub_props (HookExecutor env hooks st) = stub_props st"
  "implementation (HookExecutor env hooks st) = implementation st"
  "matcher (HookExecutor env hooks st) = matcher st"
  "wrapper (HookExecutor env hooks st) = wrapper st"
  "stubbed (HookExecutor env hooks st) = stubbed st"
  "length (promises (HookExecutor env hooks st)) = length (promises st)"
  unfolding HookExecutor_def
  by (induction hooks arbitrary: st; simp add: run_hook_fields)+

lemma run_hook_keeps_fulfilled:
  "promises st ! i = Fulfilled v \<Longrightarrow> promises (run_hook env h st) ! i = Fulfilled v"
  by (auto simp: run_hook_def Let_def resolve_promise_def nth_list_update)

lemma run_hook_other:
  "i \<noteq> resolver h \<Longrightarrow> promises (run_hook env h st) ! i = promises st ! i"
  by (auto simp: run_hook_def Let_def resolve_promise_def)

lemma run_hook_fulfils:
  "resolver h < length (promises st) \<Longrightarrow> promises st ! resolver h = Pending
   \<Longrightarrow> promises (run_hook env h st) ! resolver h = Fulfilled (func h env)
       \<and> settled (run_hook env h st) = settled st @ [resolver h]"
  by (simp add: run_hook_def Let_def resolve_promise_def)

lemma run_hook_settled_already:
  "\<not> (resolver h < length (promises st) \<and> promises st ! resolver h = Pending)
   \<Longrightarrow> settled (run_hook env h st) = settled st \<and> promises (run_hook env h st) = promises st"
  by (auto simp: run_hook_def Let_def resolve_promise_def)

lemma HookExecutor_keeps_fulfilled:
  "promises st ! i = Fulfilled v \<Longrightarrow> promises (HookExecutor env hooks st) ! i = Fulfilled v"
  unfolding HookExecutor_def
  by (induction hooks arbitrary: st) (simp_all add: run_hook_keeps_fulfilled)

lemma HookExecutor_other:
  "i \<notin> resolver ` set hooks \<Longrightarrow> promises (HookExecutor env hooks st) ! i = promises st ! i"
  unfolding HookExecutor_def
  by (induction hooks arbitrary: st) (simp_all add: run_hook_other)

lemma HookExecutor_settles:
  assumes "distinct (map resolver hooks)"
    and "\<forall>h\<in>set hooks. resolver h < length (promises st) \<and> promises st ! resolver h = Pending"
  shows "settled (HookExecutor env hooks st) = settled st @ map resolver hooks
       \<and> (\<forall>h\<in>set hooks. promises (HookExecutor env hooks st) ! resolver h = Fulfilled (func h env))"
  using assms
proof (induction hooks arbitrary: st)
  case Nil
  then show ?case by (simp add: HookExecutor_def)
next
  case (Cons h hooks)
  let ?st = "run_hook env h st"
  have now: "promises ?st ! resolver h = Fulfilled (func h env)"
    and log: "settled ?st = settled st @ [resolver h]"
    using run_hook_fulfils [of h st env] Cons.prems(2) by simp_all
  have rest: "\<forall>g\<in>set hooks. resolver g < length (promises ?st)
                \<and> promises ?st ! resolver g = Pending"
  proof
    fix g assume g: "g \<in> set hooks"
    then have "resolver g \<in> set (map resolver hooks)" by simp
    moreover have "resolver h \<notin> set (map resolver hooks)" using Cons.prems(1) by simp
    ultimately have "resolver g \<noteq> resolver h" by metis
    then show "resolver g < length (promises ?st) \<and> promises ?st ! resolver g = Pending"
      using g Cons.prems(2) by (simp add: run_hook_other run_hook_fields)
  qed
  have dist: "distinct (map resolver hooks)" using Cons.prems(1) by simp
  have step: "HookExecutor env (h # hooks) st = HookExecutor env hooks ?st"
    by (simp add: HookExecutor_def)
  from Cons.IH [OF dist rest]
  have ih1: "settled (HookExecutor env hooks ?st) = settled ?st @ map resolver hooks"
    and ih2: "\<forall>g\<in>set hooks. promises (HookExecutor env hooks ?st) ! resolver g
                 = Fulfilled (func g env)"
    by simp_all
  have "promises (HookExecutor env hooks ?st) ! resolver h = Fulfilled (func h env)"
    using now by (rule HookExecutor_keeps_fulfilled)
  then show ?case using ih1 ih2 log step by simp
qed

lemma render_computes:
  assumes "stub_inv st" "pendingHooks st \<noteq> []"
  shows "render_wrapper env p st
     = HookExecutor env (pendingHooks st)
         (st\<lparr>stub_props := Some p, setRefresher := Some SetRefresherInternal,
              pendingHooks := [],
              react := Some \<lparr>refresher = (case react st of None \<Rightarrow> 0 | Some w \<Rightarrow> refresher w),
                             memo_deps = (case react st of None \<Rightarrow> 0 | Some w \<Rightarrow> refresher w),
                             memo_hooks = pendingHooks st, memo_Impl = select_Impl st\<rparr>\<rparr>)"
  using assms
  by (auto simp: render_wrapper_def Let_def stub_inv_def split: option.splits)

lemma render_memoized:
  assumes "react st = Some w" "memo_deps w = refresher w"
  shows "render_wrapper env p st
     = HookExecutor env (memo_hooks w)
         (st\<lparr>stub_props := Some p, setRefresher := Some SetRefresherInternal\<rparr>)"
proof -
  have w: "\<lparr>refresher = refresher w, memo_deps = refresher w, memo_hooks = memo_hooks w,
             memo_Impl = memo_Impl w\<rparr> = w"
    using assms(2) by (cases w) simp
  have st: "st\<lparr>stub_props := Some p, setRefresher := Some SetRefresherInternal,
               react := Some w\<rparr>
            = st\<lparr>stub_props := Some p, setRefresher := Some SetRefresherInternal\<rparr>"
    using assms(1) by (cases st) simp
  show ?thesis
    using assms by (simp add: render_wrapper_def Let_def w st)
qed


lemma render_drains:
  assumes "stub_inv st"
  shows "pendingHooks (render_wrapper env p st) = []"
  using assms
  by (auto simp: render_wrapper_def Let_def stub_inv_def HookExecutor_fields
      split: option.splits)

lemma render_inv:
  assumes "stub_inv st"
  shows "stub_inv (render_wrapper env p st)"
proof -
  have "pendingHooks (render_wrapper env p st) = []"
    using assms by (rule render_drains)
  moreover have "setRefresher (render_wrapper env p st) = Some SetRefresherInternal"
    by (simp add: render_wrapper_def Let_def HookExecutor_fields)
  moreover have "\<exists>w. react (render_wrapper env p st) = Some w \<and> memo_deps w = refresher w"
    by (simp add: render_wrapper_def Let_def HookExecutor_fields)
  ultimately show ?thesis
    by (auto simp: stub_inv_def)
qed

lemma mock_inv:
  assumes "stub_inv st" "mockImplementation i st = Inr st'"
  shows "stub_inv st'"
  using assms unfolding mock_step
  by (auto simp: stub_inv_def split: option.splits if_splits)

lemma step_total: "\<exists>st'. stub_step x st = Inr st'"
  by (cases x) (simp_all add: push_step [simplified] pushPendingHook_def renderHook_def
      Let_def refresh_result callFake_def mock_step)

lemma step_inv:
  assumes "stub_inv st" "stub_step x st = Inr st'"
  shows "stub_inv st'"
proof (cases x)
  case (PushPendingHook f)
  then show ?thesis using assms push_inv by blast
next
  case (RenderHook f)
  then have "stub_step (PushPendingHook f) st = Inr st'"
    using assms(2) by (simp add: renderHook_def)
  then show ?thesis using assms(1) push_inv by blast
next
  case (MockImplementation i)
  then show ?thesis using assms mock_inv by auto
next
  case (CallFake i)
  then show ?thesis using assms mock_inv by (auto simp: callFake_def)
next
  case (RenderPass env p)
  then show ?thesis using assms render_inv by auto
qed

lemma new_stub_inv: "stub_inv (new_stub c m k)"
  by (simp add: stub_inv_def new_stub_def)

lemma run_inv:
  assumes "stub_inv st"
  shows "\<exists>st'. stub_run xs st = Inr st' \<and> stub_inv st'"
  using assms
proof (induction xs arbitrary: st)
  case Nil
  then show ?case by simp
next
  case (Cons x xs)
  obtain st1 where s: "stub_step x st = Inr st1" using step_total by blast
  then have "stub_inv st1" using Cons.prems step_inv by blast
  then show ?case using Cons.IH s by simp
qed

lemma hooks_batch:
  fixes s :: "('e, 'v) stub"
  assumes "stub_inv s" and "fs \<noteq> []"
  shows "\<exists>s'. stub_run (map PushPendingHook fs @ [RenderPass env p]) s = Inr s'
           \<and> pendingHooks s' = []
           \<and> calls s' = calls s @ map resolver (pendingHooks s)
                          @ [length (promises s) ..< length (promises s) + length fs]
           \<and> settled s' = settled s @ map resolver (pendingHooks s)
                          @ [length (promises s) ..< length (promises s) + length fs]
           \<and> (\<forall>i < length fs.
                 promises s' ! (length (promises s) + i) = Fulfilled ((fs ! i) env))"
proof -
  let ?n = "length (promises s)"
  from push_all [OF assms(1), of fs] obtain s1 where
    run: "stub_run (map PushPendingHook fs) s = Inr s1" and
    inv1: "stub_inv s1" and
    pend: "pendingHooks s1 = pendingHooks s @ enqueued fs ?n" and
    prom: "promises s1 = promises s @ replicate (length fs) Pending" and
    logs: "calls s1 = calls s" "settled s1 = settled s"
    by blast
  have ne: "pendingHooks s1 \<noteq> []"
  proof -
    have "length (enqueued fs ?n) \<noteq> 0" using assms(2) by (simp add: length_enqueued)
    then show ?thesis using pend by auto
  qed
  let ?s2 = "s1\<lparr>stub_props := Some p, setRefresher := Some SetRefresherInternal,
              pendingHooks := [],
              react := Some \<lparr>refresher = (case react s1 of None \<Rightarrow> 0 | Some w \<Rightarrow> refresher w),
                             memo_deps = (case react s1 of None \<Rightarrow> 0 | Some w \<Rightarrow> refresher w),
                             memo_hooks = pendingHooks s1, memo_Impl = select_Impl s1\<rparr>\<rparr>"
  let ?s' = "render_wrapper env p s1"
  have rw: "?s' = HookExecutor env (pendingHooks s1) ?s2"
    using render_computes [OF inv1 ne] .
  have "stub_run (map PushPendingHook fs @ [RenderPass env p]) s
          = (case stub_run (map PushPendingHook fs) s of
               Inl e \<Rightarrow> Inl e
             | Inr st' \<Rightarrow> stub_run [RenderPass env p] st')"
    by (rule stub_run_append)
  also have "\<dots> = stub_run [RenderPass env p] s1"
    by (simp only: run sum.case)
  also have "\<dots> = Inr ?s'"
    by simp
  finally have total: "stub_run (map PushPendingHook fs @ [RenderPass env p]) s = Inr ?s'" .
  have ids: "map resolver (pendingHooks s1)
               = map resolver (pendingHooks s) @ [?n ..< ?n + length fs]"
    using pend by (simp only: map_append resolver_enqueued)
  have dist: "distinct (map resolver (pendingHooks s1))"
    and pnd: "\<forall>h\<in>set (pendingHooks s1). resolver h < length (promises ?s2)
                \<and> promises ?s2 ! resolver h = Pending"
    using inv1 by (simp_all add: stub_inv_def list_all_iff)
  from HookExecutor_settles [OF dist pnd, of env]
  have st: "settled ?s' = settled s1 @ map resolver (pendingHooks s1)"
    and val: "\<forall>h\<in>set (pendingHooks s1). promises ?s' ! resolver h = Fulfilled (func h env)"
    unfolding rw by simp_all
  have c: "calls ?s' = calls s1 @ map resolver (pendingHooks s1)"
    unfolding rw by (simp add: HookExecutor_fields)
  have d: "pendingHooks ?s' = []"
    using inv1 by (rule render_drains)
  have v: "\<forall>i < length fs. promises ?s' ! (?n + i) = Fulfilled ((fs ! i) env)"
  proof (intro allI impI)
    fix i assume i: "i < length fs"
    then have "enqueued fs ?n ! i = \<lparr>func = fs ! i, resolver = ?n + i\<rparr>"
      by (rule nth_enqueued)
    moreover have "enqueued fs ?n ! i \<in> set (enqueued fs ?n)"
      using i by (simp only: nth_mem length_enqueued)
    ultimately have "\<lparr>func = fs ! i, resolver = ?n + i\<rparr> \<in> set (pendingHooks s1)"
      using pend by simp
    with val show "promises ?s' ! (?n + i) = Fulfilled ((fs ! i) env)"
      by force
  qed
  have c': "calls ?s' = calls s @ map resolver (pendingHooks s) @ [?n ..< ?n + length fs]"
    by (simp only: c ids logs)
  have st': "settled ?s' = settled s @ map resolver (pendingHooks s) @ [?n ..< ?n + length fs]"
    by (simp only: st ids logs)
  from total d c' st' v show ?thesis by blast
qed

lemma rerender_calls_memoized_hooks:
  assumes "react st = Some w" "memo_deps w = refresher w"
  shows "calls (render_wrapper env p st) = calls st @ map resolver (memo_hooks w)"
  using render_memoized [OF assms] by (simp add: HookExecutor_fields)

lemma fulfilled_stays:
  assumes "i < length (promises st)" "promises st ! i = Fulfilled v" "stub_step x st = Inr st'"
  shows "i < length (promises st') \<and> promises st' ! i = Fulfilled v"
proof (cases x)
  case (PushPendingHook f)
  then have "stub_step (PushPendingHook f) st = Inr st'"
    using assms(3) by simp
  then have "promises st' = promises st @ [Pending]"
    by (rule push_fields)
  then show ?thesis using assms(1,2) by (simp add: nth_append)
next
  case (RenderHook f)
  then have "stub_step (PushPendingHook f) st = Inr st'"
    using assms(3) by (simp add: renderHook_def)
  then have "promises st' = promises st @ [Pending]"
    by (rule push_fields)
  then show ?thesis using assms(1,2) by (simp add: nth_append)
next
  case (MockImplementation j)
  then show ?thesis using assms by (auto simp: mock_step)
next
  case (CallFake j)
  then show ?thesis using assms by (auto simp: callFake_def mock_step)
next
  case (RenderPass env p)
  then have st': "st' = render_wrapper env p st" using assms(3) by simp
  have "promises (render_wrapper env p st) ! i = Fulfilled v"
    unfolding render_wrapper_def Let_def
    by (rule HookExecutor_keeps_fulfilled) (simp add: assms(2))
  moreover have "length (promises (render_wrapper env p st)) = length (promises st)"
    by (simp add: render_wrapper_def Let_def HookExecutor_fields)
  ultimately show ?thesis using assms(1) st' by simp
qed

text \<open>
  Claim C2, amended. For every stub, in whatever state its use has brought it, the
  hooks pushed by \<^verbatim>\<open>_pushPendingHook\<close> are all taken from the queue by the one render
  pass that follows, which calls each of them once, in the order they were pushed, after
  the hooks that were pending before; in that pass each promise is fulfilled, in the
  same order, with the value its procedure returns there. So of two hooks pushed before
  a render pass, the promise of the first is fulfilled before the promise of the second.
\<close>

theorem hooks_fifo_in_next_render:
  fixes s :: "('e, 'v) stub"
  assumes "stub_run ops (new_stub c m k) = Inr s" and "fs \<noteq> []"
  shows "\<exists>s'. stub_run (map PushPendingHook fs @ [RenderPass env p]) s = Inr s'
           \<and> pendingHooks s' = []
           \<and> calls s' = calls s @ map resolver (pendingHooks s)
                          @ [length (promises s) ..< length (promises s) + length fs]
           \<and> settled s' = settled s @ map resolver (pendingHooks s)
                          @ [length (promises s) ..< length (promises s) + length fs]
           \<and> (\<forall>i < length fs.
                 promises s' ! (length (promises s) + i) = Fulfilled ((fs ! i) env))"
proof -
  from run_inv [OF new_stub_inv, of ops c m k] assms(1) have "stub_inv s"
    by auto
  then show ?thesis using assms(2) by (rule hooks_batch)
qed

theorem hooks_fifo_in_next_render_witness:
  "stub_run [RenderPass 3 \<lparr>wrapped = False, attrs = []\<rparr>] (new_stub WorkspaceLayout None 0)
     = Inr (render_wrapper (3::nat) \<lparr>wrapped = False, attrs = []\<rparr>
              (new_stub WorkspaceLayout None 0 :: (nat, nat) stub))
   \<and> [Suc, (+) 10] \<noteq> []
   \<and> (\<exists>s'. stub_run (map PushPendingHook [Suc, (+) 10]
                        @ [RenderPass 5 \<lparr>wrapped = False, attrs = []\<rparr>])
              (render_wrapper 3 \<lparr>wrapped = False, attrs = []\<rparr>
                 (new_stub WorkspaceLayout None 0)) = Inr s'
          \<and> pendingHooks s' = []
          \<and> calls s' = [0, 1] \<and> settled s' = [0, 1]
          \<and> promises s' ! 0 = Fulfilled 6 \<and> promises s' ! 1 = Fulfilled 15)"
proof -
  let ?p = "\<lparr>wrapped = False, attrs = []\<rparr>"
  let ?s = "render_wrapper (3::nat) ?p (new_stub WorkspaceLayout None 0 :: (nat, nat) stub)"
  let ?fs = "[Suc, (+) 10] :: (nat \<Rightarrow> nat) list"
  have r: "stub_run [RenderPass 3 ?p] (new_stub WorkspaceLayout None 0) = Inr ?s"
    by simp
  have ne: "?fs \<noteq> []" by simp
  have s: "calls ?s = []" "settled ?s = []" "pendingHooks ?s = []" "promises ?s = []"
    by (simp_all add: render_wrapper_def Let_def new_stub_def HookExecutor_def)
  from hooks_fifo_in_next_render [OF r ne, of 5 ?p]
  obtain s' where
    run: "stub_run (map PushPendingHook ?fs @ [RenderPass 5 ?p]) ?s = Inr s'" and
    d: "pendingHooks s' = []" and
    c: "calls s' = calls ?s @ map resolver (pendingHooks ?s)
                   @ [length (promises ?s) ..< length (promises ?s) + length ?fs]" and
    st: "settled s' = settled ?s @ map resolver (pendingHooks ?s)
                   @ [length (promises ?s) ..< length (promises ?s) + length ?fs]" and
    v: "\<forall>i < length ?fs. promises s' ! (length (promises ?s) + i) = Fulfilled ((?fs ! i) 5)"
    by blast
  have c': "calls s' = [0, 1]"
    using c by (simp add: s upt_rec)
  have st': "settled s' = [0, 1]"
    using st by (simp add: s upt_rec)
  have v0: "promises s' ! 0 = Fulfilled 6"
    using v [rule_format, of 0] by (simp add: s)
  have v1: "promises s' ! 1 = Fulfilled 15"
    using v [rule_format, of 1] by (simp add: s)
  from r ne run d c' st' v0 v1 show ?thesis by blast
qed

text \<open>
  The claim as it was stated has every hook called exactly once. A render pass that
  finds \<^verbatim>\<open>refresher\<close> unchanged gets the same hooks from \<^verbatim>\<open>useMemo\<close> and
  \<^verbatim>\<open>HookExecutor\<close> calls them again: after the wrapper has mounted, a hook is pushed,
  the next pass calls it and fulfils its promise with 6, and one more pass calls it a
  second time; the promise keeps its value.
\<close>

theorem hooks_executed_twice_counterexample:
  "stub_run [RenderPass 1 \<lparr>wrapped = False, attrs = []\<rparr>,
             RenderHook Suc,
             RenderPass 5 \<lparr>wrapped = False, attrs = []\<rparr>,
             RenderPass 7 \<lparr>wrapped = False, attrs = []\<rparr>]
        (new_stub WorkspaceLayout None 0)
      = Inr \<lparr>matcher = None, implementation = None,
             stub_props = Some \<lparr>wrapped = False, attrs = []\<rparr>,
             stubbed = WorkspaceLayout, wrapper = Wrapper WorkspaceLayout 0,
             setRefresher = Some SetRefresherInternal, pendingHooks = [],
             react = Some \<lparr>refresher = 1, memo_deps = 1,
                            memo_hooks = [\<lparr>func = Suc, resolver = 0\<rparr>],
                            memo_Impl = OrigImpl WorkspaceLayout\<rparr>,
             promises = [Fulfilled 6], calls = [0, 0], settled = [0]\<rparr>"
  by (simp add: new_stub_def renderHook_def pushPendingHook_def refresh_def
      call_setRefresher_def Let_def render_wrapper_def
      HookExecutor_def run_hook_def resolve_promise_def select_Impl_def)

end
